theory Spec2Isabelle
  imports Main
begin

section \<open>Object storage uploader (\<^verbatim>\<open>restapi/shared/s3/service.py\<close>)\<close>

subsection \<open>The standard library's \<^verbatim>\<open>urlunparse\<close>\<close>

text \<open>
  \<^verbatim>\<open>S3Service.as_uri\<close> formats its result with \<^verbatim>\<open>urllib.parse.urlunparse\<close> of the
  Python standard library. The function is embedded from CPython's \<^verbatim>\<open>urllib/parse.py\<close>
  (3.11), for \<^verbatim>\<open>str\<close> components, where \<^verbatim>\<open>_coerce_args\<close> and
  \<^verbatim>\<open>_coerce_result\<close> are the identity:
  \<^verbatim>\<open>
  def urlunparse(components):
      scheme, netloc, url, params, query, fragment, _coerce_result = (
                                                    _coerce_args(*components))
      if params:
          url = "%s;%s" % (url, params)
      return _coerce_result(urlunsplit((scheme, netloc, url, query, fragment)))

  def urlunsplit(components):
      scheme, netloc, url, query, fragment, _coerce_result = (
                                            _coerce_args(*components))
      if netloc or (scheme and scheme in uses_netloc) or url[:2] == '//':
          if url and url[:1] != '/': url = '/' + url
          url = '//' + (netloc or '') + url
      if scheme:
          url = scheme + ':' + url
      if query:
          url = url + '?' + query
      if fragment:
          url = url + '#' + fragment
      return _coerce_result(url)
  \<close>
  A Python string is truthy when it is not empty. The scheme \<^verbatim>\<open>s3\<close> is not a member of
  \<^verbatim>\<open>uses_netloc\<close>.
\<close>

definition uses_netloc :: "string list" where
  "uses_netloc =
     ['''', ''ftp'', ''http'', ''gopher'', ''nntp'', ''telnet'', ''imap'', ''wais'',
      ''file'', ''mms'', ''https'', ''shttp'', ''snews'', ''prospero'', ''rtsp'',
      ''rtsps'', ''rtspu'', ''rsync'', ''svn'', ''svn+ssh'', ''sftp'', ''nfs'', ''git'',
      ''git+ssh'', ''ws'', ''wss'']"

definition urlunsplit :: "string \<times> string \<times> string \<times> string \<times> string \<Rightarrow> string" where
  "urlunsplit components =
     (case components of (scheme, netloc, url, query, fragment) \<Rightarrow>
        let url1 =
              (if netloc \<noteq> [] \<or> (scheme \<noteq> [] \<and> scheme \<in> set uses_netloc) \<or> take 2 url = ''//''
               then ''//'' @ netloc @ (if url \<noteq> [] \<and> take 1 url \<noteq> ''/'' then ''/'' @ url else url)
               else url);
            url2 = (if scheme \<noteq> [] then scheme @ '':'' @ url1 else url1);
            url3 = (if query \<noteq> [] then url2 @ ''?'' @ query else url2)
        in (if fragment \<noteq> [] then url3 @ ''#'' @ fragment else url3))"

text \<open>
  Earlier releases of CPython (up to 3.10) test
  \<^verbatim>\<open>netloc or (scheme and scheme in uses_netloc and url[:2] != '//')\<close> instead; the rest of
  \<^verbatim>\<open>urlunsplit\<close> is the same.
\<close>

definition urlunsplit_earlier :: "string \<times> string \<times> string \<times> string \<times> string \<Rightarrow> string" where
  "urlunsplit_earlier components =
     (case components of (scheme, netloc, url, query, fragment) \<Rightarrow>
        let url1 =
              (if netloc \<noteq> [] \<or> (scheme \<noteq> [] \<and> scheme \<in> set uses_netloc \<and> take 2 url \<noteq> ''//'')
               then ''//'' @ netloc @ (if url \<noteq> [] \<and> take 1 url \<noteq> ''/'' then ''/'' @ url else url)
               else url);
            url2 = (if scheme \<noteq> [] then scheme @ '':'' @ url1 else url1);
            url3 = (if query \<noteq> [] then url2 @ ''?'' @ query else url2)
        in (if fragment \<noteq> [] then url3 @ ''#'' @ fragment else url3))"

definition urlunparse ::
  "string \<times> string \<times> string \<times> string \<times> string \<times> string \<Rightarrow> string" where
  "urlunparse components =
     (case components of (scheme, netloc, url, params, query, fragment) \<Rightarrow>
        urlunsplit (scheme, netloc,
                    (if params \<noteq> [] then url @ '';'' @ params else url), query, fragment))"

subsection \<open>\<^verbatim>\<open>S3Service\<close>\<close>

text \<open>
  \<^verbatim>\<open>x or ""\<close> for an \<^verbatim>\<open>Optional[str]\<close>: \<^verbatim>\<open>None\<close> and the empty string are both
  falsy, so both give the empty string.
\<close>

definition or_empty :: "string option \<Rightarrow> string" where
  "or_empty x = (case x of None \<Rightarrow> '''' | Some v \<Rightarrow> (if v \<noteq> [] then v else ''''))"

definition as_uri :: "string option \<Rightarrow> string option \<Rightarrow> string" where
  "as_uri bucket key = urlunparse (''s3'', or_empty bucket, or_empty key, '''', '''', '''')"

text \<open>
  The storage client (\<^verbatim>\<open>botocore\<close>) is external; its \<^verbatim>\<open>upload_fileobj\<close> is a parameter
  of the model that either returns (\<open>None\<close>) or raises an exception (\<open>Some e\<close>). The
  handler of \<^verbatim>\<open>upload\<close> is \<^verbatim>\<open>except ClientError\<close>: an exception of that class is
  caught, an exception of any other class (\<open>Other\<close>, with the name of its class) leaves
  \<^verbatim>\<open>upload\<close> unhandled. The calls to the logger are not modelled.
\<close>

datatype exn = ClientError | Other string

type_synonym 'f client = "'f \<Rightarrow> string \<Rightarrow> string \<Rightarrow> exn option"

definition upload :: "'f client \<Rightarrow> 'f \<Rightarrow> string \<Rightarrow> string \<Rightarrow> exn + string option" where
  "upload upload_fileobj fileobj bucket key =
     (case upload_fileobj fileobj bucket key of
        Some ClientError \<Rightarrow> Inr None
      | Some (Other c) \<Rightarrow> Inl (Other c)
      | None \<Rightarrow> Inr (Some (as_uri (Some bucket) (Some key))))"

section \<open>User and authentication services (\<^verbatim>\<open>proto/services.py\<close>)\<close>

subsection \<open>Rendering an integer as a dictionary key\<close>

text \<open>
  \<^verbatim>\<open>register_new_user\<close> stores the new record under the key \<^verbatim>\<open>f"{new_id}"\<close>, the
  decimal rendering of a Python \<^verbatim>\<open>int\<close>: a minus sign for a negative number, then the
  digits without leading zeros.
\<close>

definition digit :: "nat \<Rightarrow> char" where
  "digit d = char_of (48 + d)"

function str_nat :: "nat \<Rightarrow> string" where
  "str_nat n = (if n < 10 then [digit n] else str_nat (n div 10) @ [digit (n mod 10)])"
  by pat_completeness auto
termination
  by (relation "measure (\<lambda>n. n)") auto

declare str_nat.simps [simp del]

definition str_int :: "int \<Rightarrow> string" where
  "str_int i = (if i < 0 then CHR ''-'' # str_nat (nat (- i)) else str_nat (nat i))"

subsection \<open>Data model\<close>

text \<open>
  \<^verbatim>\<open>User\<close> and \<^verbatim>\<open>db\<close> are imported from \<^verbatim>\<open>.models\<close>. The fields of \<^verbatim>\<open>User\<close> are those
  of the constructor call in \<^verbatim>\<open>register_new_user\<close> (and of the module's doctest):
  \<^verbatim>\<open>User(id, alternative_id, name, password, deleted)\<close>.
\<close>

record user =
  id_user :: int
  alternative_id :: string
  name :: string
  password :: string
  deleted :: bool

text \<open>
  \<^verbatim>\<open>User\<close> objects are mutable and shared: \<^verbatim>\<open>db["users"]\<close> holds references to them,
  \<^verbatim>\<open>authenticate_user\<close> and \<^verbatim>\<open>load_user\<close> return such a reference, and flask-login's
  \<^verbatim>\<open>current_user\<close> is a proxy for one, so that an assignment to an attribute of
  \<^verbatim>\<open>current_user\<close> is seen through \<^verbatim>\<open>db["users"]\<close>. The state is therefore an explicit
  store:
  \<^item> \<open>heap\<close> gives the object behind each reference, and \<open>lim\<close> is the next reference
    that the constructor \<^verbatim>\<open>User(...)\<close> hands out;
  \<^item> \<open>users\<close> is the dictionary \<^verbatim>\<open>db["users"]\<close>, an association list from keys to
    references in insertion order (the order in which \<^verbatim>\<open>.values()\<close> iterates);
  \<^item> \<open>current_user\<close> is the object behind the proxy, \<open>None\<close> when nobody is logged in
    (the proxy is then flask-login's anonymous user, which has no \<^verbatim>\<open>password\<close>
    attribute: reading it raises \<^verbatim>\<open>AttributeError\<close>).
\<close>

type_synonym ref = nat

record state =
  heap :: "ref \<Rightarrow> user"
  lim :: ref
  users :: "(string \<times> ref) list"
  current_user :: "ref option"

datatype error = AttributeError

text \<open>
  The services answer with a dictionary \<^verbatim>\<open>{"status": ..., "message": ...}\<close>, alone
  (\<open>Body\<close>) or in a tuple with a status code (\<open>BodyCode\<close>).
\<close>

record body =
  status :: int
  message :: string

datatype response = Body body | BodyCode body int

text \<open>
  \<^verbatim>\<open>PasswordService\<close> delegates to passlib's \<^verbatim>\<open>CryptContext\<close>, an external library:
  its two operations are parameters of the model. (A salted \<^verbatim>\<open>hash\<close> draws its salt at
  each call; no operation below calls it more than once, and the theorems hold for
  every function \<open>hash\<close>.) The value of \<^verbatim>\<open>uuid.uuid4().hex\<close> is likewise an argument
  \<open>uuid\<close> of the operations that draw one.
\<close>

record password_service =
  hash :: "string \<Rightarrow> string"
  verify :: "string \<Rightarrow> string \<Rightarrow> bool"

subsection \<open>Dictionary operations\<close>

text \<open>
  \<^verbatim>\<open>d[k] = v\<close> replaces the value of an existing key where it stands and appends a new
  key at the end; \<^verbatim>\<open>d.values()\<close> lists the values in that order.
\<close>

fun setitem :: "('k \<times> 'v) list \<Rightarrow> 'k \<Rightarrow> 'v \<Rightarrow> ('k \<times> 'v) list" where
  "setitem [] k v = [(k, v)]"
| "setitem ((k', v') # d) k v =
     (if k' = k then (k', v) # d else (k', v') # setitem d k v)"

definition values_of :: "state \<Rightarrow> ref list" where
  "values_of s = map snd (users s)"

subsection \<open>\<^verbatim>\<open>UserService\<close>\<close>

text \<open>
  \<^verbatim>\<open>authenticate_user\<close>: the loop runs over the generator of the non-deleted users of
  that name, and its body ends with \<^verbatim>\<open>return\<close> or \<^verbatim>\<open>break\<close>: only the first such
  user is ever verified.
\<close>

definition authenticate_user ::
  "password_service \<Rightarrow> state \<Rightarrow> string \<Rightarrow> string \<Rightarrow> ref option" where
  "authenticate_user ps s nm pw =
     (case filter (\<lambda>x. name (heap s x) = nm \<and> \<not> deleted (heap s x)) (values_of s) of
        [] \<Rightarrow> None
      | u # _ \<Rightarrow> (if verify ps pw (password (heap s u)) then Some u else None))"

definition change_password ::
  "password_service \<Rightarrow> string \<Rightarrow> state \<Rightarrow> string \<Rightarrow> string \<Rightarrow> error + response \<times> state" where
  "change_password ps uuid s current_password new_password =
     (case current_user s of
        None \<Rightarrow> Inl AttributeError
      | Some cu \<Rightarrow>
          if \<not> verify ps current_password (password (heap s cu))
          then Inr (BodyCode \<lparr>status = 403, message = ''Password Change Failed''\<rparr> 403, s)
          else
            let s1 = s\<lparr>heap := (heap s)(cu := (heap s cu)\<lparr>password := hash ps new_password\<rparr>)\<rparr>;
                s2 = s1\<lparr>heap := (heap s1)(cu := (heap s1 cu)\<lparr>alternative_id := uuid\<rparr>)\<rparr>
            in Inr (Body \<lparr>status = 200, message = ''Password Change Successful''\<rparr>, s2))"

definition delete_current_user ::
  "password_service \<Rightarrow> state \<Rightarrow> string \<Rightarrow> error + response \<times> state" where
  "delete_current_user ps s pw =
     (case current_user s of
        None \<Rightarrow> Inl AttributeError
      | Some cu \<Rightarrow>
          if \<not> verify ps pw (password (heap s cu))
          then Inr (BodyCode \<lparr>status = 403,
                      message = ''Unable to delete current user, password check failed.''\<rparr> 403, s)
          else Inr (Body \<lparr>status = 200, message = ''Current user deleted successfully.''\<rparr>,
                    s\<lparr>heap := (heap s)(cu := (heap s cu)\<lparr>deleted := True\<rparr>)\<rparr>))"

definition load_user :: "state \<Rightarrow> string \<Rightarrow> ref option" where
  "load_user s user_id =
     (case filter (\<lambda>x. alternative_id (heap s x) = user_id) (values_of s) of
        [] \<Rightarrow> None
      | u # _ \<Rightarrow> Some u)"

text \<open>
  \<^verbatim>\<open>max([0, *ids])\<close> is the fold of \<open>max\<close> over the ids, starting from \<open>0\<close>.
\<close>

definition new_id :: "state \<Rightarrow> int" where
  "new_id s = fold max (map (\<lambda>x. id_user (heap s x)) (values_of s)) 0 + 1"

definition register_new_user ::
  "password_service \<Rightarrow> string \<Rightarrow> state \<Rightarrow> string \<Rightarrow> string \<Rightarrow> string \<Rightarrow> response \<times> state" where
  "register_new_user ps uuid s nm pw confirm_password =
     (if pw \<noteq> confirm_password
      then (BodyCode \<lparr>status = 403,
              message = ''The password and confirmation password did not match.''\<rparr> 403, s)
      else if length (map (\<lambda>x. name (heap s x))
                 (filter (\<lambda>x. name (heap s x) = nm \<and> \<not> deleted (heap s x)) (values_of s))) > 0
      then (BodyCode \<lparr>status = 403,
              message = ''The username '' @ nm @ '' is not available.''\<rparr> 403, s)
      else
        (Body \<lparr>status = 200, message = ''User '' @ nm @ '' registration successful''\<rparr>,
         s\<lparr>heap := (heap s)(lim s :=
                \<lparr>id_user = new_id s, alternative_id = uuid, name = nm,
                 password = hash ps pw, deleted = False\<rparr>),
           lim := Suc (lim s),
           users := setitem (users s) (str_int (new_id s)) (lim s)\<rparr>))"

subsection \<open>\<^verbatim>\<open>AuthService\<close>\<close>

text \<open>
  flask-login's \<^verbatim>\<open>login_user(user)\<close> makes \<^verbatim>\<open>user\<close> the current user.
\<close>

definition login :: "password_service \<Rightarrow> state \<Rightarrow> string \<Rightarrow> string \<Rightarrow> response \<times> state" where
  "login ps s username pw =
     (case authenticate_user ps s username pw of
        None \<Rightarrow> (BodyCode \<lparr>status = 401, message = ''Username or Password Error''\<rparr> 401, s)
      | Some u \<Rightarrow> (Body \<lparr>status = 200, message = ''login success''\<rparr>,
                   s\<lparr>current_user := Some u\<rparr>))"

text \<open>
  \<^verbatim>\<open>logout\<close>: with \<^verbatim>\<open>everywhere\<close> the alternative id of the current user is replaced
  (when nobody is logged in the assignment goes to the anonymous user and does not touch
  the store); flask-login's \<^verbatim>\<open>logout_user()\<close> then leaves nobody logged in.
\<close>

definition logout :: "string \<Rightarrow> state \<Rightarrow> bool \<Rightarrow> response \<times> state" where
  "logout uuid s everywhere =
     (let s1 = (if everywhere
                then (case current_user s of
                        None \<Rightarrow> s
                      | Some cu \<Rightarrow>
                          s\<lparr>heap := (heap s)(cu := (heap s cu)\<lparr>alternative_id := uuid\<rparr>)\<rparr>)
                else s)
      in (Body \<lparr>status = 200, message = ''logout success''\<rparr>, s1\<lparr>current_user := None\<rparr>))"

subsection \<open>The invariant of the user store\<close>

text \<open>
  The states that the operations above reach from an empty \<^verbatim>\<open>db["users"]\<close>: the keys are
  distinct (a dictionary), every entry has an object of its own, allocated before
  \<open>lim\<close>, the key of a record is the rendering of its id, ids are positive, a name has
  at most one non-deleted holder, and the current user is an object of the store.
\<close>

definition wf_state :: "state \<Rightarrow> bool" where
  "wf_state s \<longleftrightarrow>
     distinct (map fst (users s)) \<and> distinct (values_of s)
     \<and> (\<forall>(k, r) \<in> set (users s).
           r < lim s \<and> k = str_int (id_user (heap s r)) \<and> 1 \<le> id_user (heap s r))
     \<and> (\<forall>r \<in> set (values_of s). \<forall>r' \<in> set (values_of s).
           name (heap s r) = name (heap s r') \<and> \<not> deleted (heap s r) \<and> \<not> deleted (heap s r')
           \<longrightarrow> r = r')
     \<and> (case current_user s of None \<Rightarrow> True | Some cu \<Rightarrow> cu \<in> set (values_of s))"

text \<open>A password service and states for the concrete instances below.\<close>

definition ps0 :: password_service where
  "ps0 = \<lparr>hash = (\<lambda>p. ''#'' @ p), verify = (\<lambda>p h. h = ''#'' @ p)\<rparr>"

definition no_user :: user where
  "no_user = \<lparr>id_user = 0, alternative_id = '''', name = '''', password = '''', deleted = False\<rparr>"

definition st_empty :: state where
  "st_empty = \<lparr>heap = (\<lambda>r. no_user), lim = 0, users = [], current_user = None\<rparr>"

definition user_alice :: user where
  "user_alice = \<lparr>id_user = 1, alternative_id = ''a1'', name = ''alice'', password = ''#pw'',
                  deleted = False\<rparr>"

definition st_alice :: state where
  "st_alice = \<lparr>heap = (\<lambda>r. no_user)(0 := user_alice), lim = 1, users = [(''1'', 0)],
                current_user = Some 0\<rparr>"

text \<open>
  The states of a run from the empty store: the user \<open>alice\<close> is registered
  (\<open>st_registered\<close>), logs in (\<open>st_alice\<close>) and deletes the account (\<open>st_deleted\<close>); then the
  name is registered again with the same password while the deleted record is still the
  current user (\<open>st_rereg\<close>).
\<close>

definition st_registered :: state where
  "st_registered = \<lparr>heap = (\<lambda>r. no_user)(0 := user_alice), lim = 1, users = [(''1'', 0)],
                     current_user = None\<rparr>"

definition st_deleted :: state where
  "st_deleted = \<lparr>heap = (\<lambda>r. no_user)(0 := user_alice\<lparr>deleted := True\<rparr>), lim = 1,
                  users = [(''1'', 0)], current_user = Some 0\<rparr>"

definition user_alice2 :: user where
  "user_alice2 = \<lparr>id_user = 2, alternative_id = ''a2'', name = ''alice'', password = ''#pw'',
                   deleted = False\<rparr>"

definition st_rereg :: state where
  "st_rereg = \<lparr>heap = (\<lambda>r. no_user)(0 := user_alice\<lparr>deleted := True\<rparr>, 1 := user_alice2),
                lim = 2, users = [(''1'', 0), (''2'', 1)], current_user = Some 0\<rparr>"

section \<open>Properties of the uploader\<close>

lemma s3_not_in_uses_netloc: "''s3'' \<notin> set uses_netloc"
  by (simp add: uses_netloc_def)

lemma urlunsplit_earlier_s3:
  "take 2 url \<noteq> ''//'' \<Longrightarrow>
     urlunsplit_earlier (''s3'', netloc, url, query, fragment) =
       urlunsplit (''s3'', netloc, url, query, fragment)"
  by (simp add: urlunsplit_earlier_def urlunsplit_def s3_not_in_uses_netloc)

lemma as_uri_netloc:
  assumes "bucket \<noteq> []"
  shows "as_uri (Some bucket) key =
           ''s3://'' @ bucket @
             (if or_empty key \<noteq> [] \<and> take 1 (or_empty key) \<noteq> ''/''
              then ''/'' @ or_empty key else or_empty key)"
  using assms by (simp add: as_uri_def urlunparse_def urlunsplit_def or_empty_def)

text \<open>
  C8 (amended): \<^verbatim>\<open>as_uri(bucket="b", key="k")\<close> is \<^verbatim>\<open>"s3://b/k"\<close>. A missing value is
  replaced by the empty string (the components handed to \<^verbatim>\<open>urlunparse\<close> for
  \<^verbatim>\<open>(None, None)\<close> are those for \<^verbatim>\<open>("", "")\<close>), and \<^verbatim>\<open>as_uri(None, None)\<close> returns
  the string \<^verbatim>\<open>"s3:"\<close>: with an empty bucket no \<^verbatim>\<open>//\<close> is written for the scheme
  \<^verbatim>\<open>s3\<close>.
\<close>

theorem as_uri_values:
  "as_uri (Some ''b'') (Some ''k'') = ''s3://b/k''
   \<and> as_uri None None = urlunparse (''s3'', '''', '''', '''', '''', '''')
   \<and> as_uri None None = as_uri (Some '''') (Some '''')
   \<and> as_uri None None = ''s3:''"
  by (simp add: as_uri_def urlunparse_def urlunsplit_def or_empty_def s3_not_in_uses_netloc)

text \<open>
  C8, as stated, fails at \<^verbatim>\<open>as_uri(None, None)\<close>: the result is not \<^verbatim>\<open>"s3:///"\<close>.
\<close>

theorem as_uri_none_counterexample:
  "\<not> (as_uri (Some ''b'') (Some ''k'') = ''s3://b/k'' \<and> as_uri None None = ''s3:///'')"
  by (simp add: as_uri_def urlunparse_def urlunsplit_def or_empty_def s3_not_in_uses_netloc)

text \<open>
  C9 (amended): \<^verbatim>\<open>upload\<close> returns the URI \<^verbatim>\<open>as_uri(bucket, key)\<close> when the client's
  upload returns, returns \<^verbatim>\<open>None\<close> when the client raises \<^verbatim>\<open>ClientError\<close>, and lets
  an exception of any other class through to its caller.
\<close>

theorem upload_result:
  "(upload_fileobj fileobj bucket key = None \<longrightarrow>
      upload upload_fileobj fileobj bucket key = Inr (Some (as_uri (Some bucket) (Some key))))
   \<and> (upload_fileobj fileobj bucket key = Some ClientError \<longrightarrow>
        upload upload_fileobj fileobj bucket key = Inr None)
   \<and> (\<forall>e. upload_fileobj fileobj bucket key = Some e \<and> e \<noteq> ClientError \<longrightarrow>
        upload upload_fileobj fileobj bucket key = Inl e)"
  by (auto simp: upload_def split: exn.splits)

theorem upload_result_witness:
  "upload (\<lambda>f b k. None) ''data'' ''b'' ''k'' = Inr (Some ''s3://b/k'')
   \<and> upload (\<lambda>f b k. Some ClientError) ''data'' ''b'' ''k'' = Inr None
   \<and> upload (\<lambda>f b k. Some (Other ''EndpointConnectionError'')) ''data'' ''b'' ''k''
       = Inl (Other ''EndpointConnectionError'')"
  using upload_result [of "\<lambda>f b k. None" "''data''" "''b''" "''k''"]
        upload_result [of "\<lambda>f b k. Some ClientError" "''data''" "''b''" "''k''"]
        upload_result [of "\<lambda>f b k. Some (Other ''EndpointConnectionError'')"
                          "''data''" "''b''" "''k''"]
  by (simp add: as_uri_def urlunparse_def urlunsplit_def or_empty_def)

text \<open>
  C9, as stated, fails when the client's failure is not a \<^verbatim>\<open>ClientError\<close> (botocore
  reports an unreachable endpoint as \<^verbatim>\<open>EndpointConnectionError\<close>, which is not a
  subclass of it): \<^verbatim>\<open>upload\<close> raises instead of returning \<^verbatim>\<open>None\<close>.
\<close>

theorem upload_other_failure_counterexample:
  "upload (\<lambda>f b k. Some (Other ''EndpointConnectionError'')) ''data'' ''b'' ''k'' \<noteq> Inr None"
  by (simp add: upload_def)

section \<open>Auxiliary facts\<close>

subsection \<open>Decimal rendering is injective\<close>

lemma digit_inj: "a < 10 \<Longrightarrow> b < 10 \<Longrightarrow> digit a = digit b \<Longrightarrow> a = b"
proof -
  assume a: "a < 10" and b: "b < 10" and e: "digit a = digit b"
  from e have "(of_char (char_of (48 + a)) :: nat) = of_char (char_of (48 + b))"
    by (simp add: digit_def)
  with a b show "a = b" by simp
qed

lemma str_nat_nonempty: "str_nat n \<noteq> []"
  by (subst str_nat.simps) simp

lemma str_nat_nonempty': "[] \<noteq> str_nat n"
  using str_nat_nonempty [of n] by fastforce

lemma str_nat_small: "n < 10 \<Longrightarrow> str_nat n = [digit n]"
  by (subst str_nat.simps) simp

lemma str_nat_large: "\<not> n < 10 \<Longrightarrow> str_nat n = str_nat (n div 10) @ [digit (n mod 10)]"
  by (subst str_nat.simps) simp

lemma str_nat_inj: "str_nat m = str_nat n \<Longrightarrow> m = n"
proof (induction m arbitrary: n rule: str_nat.induct)
  case (1 m)
  show ?case
  proof (cases "m < 10")
    case True
    note m = this
    show ?thesis
    proof (cases "n < 10")
      case True
      with m "1.prems" have "digit m = digit n" by (simp add: str_nat_small)
      with m True show ?thesis by (rule digit_inj)
    next
      case False
      with m "1.prems" show ?thesis by (simp add: str_nat_small str_nat_large str_nat_nonempty str_nat_nonempty')
    qed
  next
    case False
    note m = this
    show ?thesis
    proof (cases "n < 10")
      case True
      with m "1.prems" show ?thesis by (simp add: str_nat_small str_nat_large str_nat_nonempty str_nat_nonempty')
    next
      case False
      with m "1.prems" have e: "str_nat (m div 10) = str_nat (n div 10)"
        and d: "digit (m mod 10) = digit (n mod 10)"
        by (simp_all add: str_nat_large)
      from "1.IH" [OF m e] have "m div 10 = n div 10" .
      moreover from d have "m mod 10 = n mod 10" by (intro digit_inj) simp_all
      ultimately have "10 * (m div 10) + m mod 10 = 10 * (n div 10) + n mod 10" by simp
      then show ?thesis by (simp only: mult_div_mod_eq)
    qed
  qed
qed

lemma str_int_inj_nonneg: "0 \<le> i \<Longrightarrow> 0 \<le> j \<Longrightarrow> str_int i = str_int j \<Longrightarrow> i = j"
  by (auto simp: str_int_def dest: str_nat_inj)



lemma fold_max_ge_init: "(m::int) \<le> fold max xs m"
proof (induction xs arbitrary: m)
  case Nil
  show ?case by simp
next
  case (Cons x xs)
  have "m \<le> max x m" by simp
  also have "\<dots> \<le> fold max xs (max x m)" by (rule Cons.IH)
  finally show ?case by simp
qed

lemma fold_max_ge_elem: "x \<in> set xs \<Longrightarrow> (x::int) \<le> fold max xs m"
proof (induction xs arbitrary: m)
  case Nil
  then show ?case by simp
next
  case (Cons y ys)
  show ?case
  proof (cases "x = y")
    case True
    have "x \<le> max y m" using True by simp
    also have "\<dots> \<le> fold max ys (max y m)" by (rule fold_max_ge_init)
    finally show ?thesis by simp
  next
    case False
    with Cons.prems have "x \<in> set ys" by simp
    then have "x \<le> fold max ys (max y m)" by (rule Cons.IH)
    then show ?thesis by simp
  qed
qed

lemma fold_max_Max: "fold max xs (m::int) = Max (set (m # xs))"
  by (simp only: Max.set_eq_fold)

lemma new_id_positive: "1 \<le> new_id s"
  using fold_max_ge_init [of 0] by (simp add: new_id_def)

lemma new_id_greater: "r \<in> set (values_of s) \<Longrightarrow> id_user (heap s r) < new_id s"
  using fold_max_ge_elem [of "id_user (heap s r)" "map (\<lambda>x. id_user (heap s x)) (values_of s)" 0]
  by (simp add: new_id_def)

lemma new_id_empty: "users s = [] \<Longrightarrow> new_id s = 1"
  by (simp add: new_id_def values_of_def)

lemma Max_insert_zero:
  "finite A \<Longrightarrow> A \<noteq> {} \<Longrightarrow> (\<forall>a\<in>A. (0::int) \<le> a) \<Longrightarrow> Max (insert 0 A) = Max A"
proof -
  assume fin: "finite A" and ne: "A \<noteq> {}" and nn: "\<forall>a\<in>A. (0::int) \<le> a"
  have "Max (insert 0 A) = max 0 (Max A)" using fin ne by (rule Max_insert)
  also have "\<dots> = Max A"
  proof -
    obtain a where a: "a \<in> A" using ne by blast
    from a nn have "0 \<le> a" by blast
    moreover from fin a have "a \<le> Max A" by (rule Max_ge)
    ultimately have "0 \<le> Max A" by (rule order_trans)
    then show ?thesis by (rule max_absorb2)
  qed
  finally show ?thesis .
qed

lemma new_id_Max:
  assumes "users s \<noteq> []" and "\<forall>r \<in> set (values_of s). 0 \<le> id_user (heap s r)"
  shows "new_id s = Max ((\<lambda>r. id_user (heap s r)) ` set (values_of s)) + 1"
proof -
  have ne: "(\<lambda>r. id_user (heap s r)) ` set (values_of s) \<noteq> {}"
    using assms(1) by (simp add: values_of_def)
  have nn: "\<forall>a \<in> (\<lambda>r. id_user (heap s r)) ` set (values_of s). 0 \<le> a"
    using assms(2) by blast
  have "new_id s = Max (set (0 # map (\<lambda>x. id_user (heap s x)) (values_of s))) + 1"
    by (simp only: new_id_def fold_max_Max)
  also have "set (0 # map (\<lambda>x. id_user (heap s x)) (values_of s))
               = insert 0 ((\<lambda>r. id_user (heap s r)) ` set (values_of s))"
    by simp
  also have "Max (insert 0 ((\<lambda>r. id_user (heap s r)) ` set (values_of s)))
               = Max ((\<lambda>r. id_user (heap s r)) ` set (values_of s))"
    using _ ne nn by (rule Max_insert_zero) simp
  finally show ?thesis .
qed


lemma setitem_fresh: "k \<notin> set (map fst d) \<Longrightarrow> setitem d k v = d @ [(k, v)]"
  by (induction d k v rule: setitem.induct) auto

lemma setitem_value_in: "v \<in> set (map snd (setitem d k v))"
  by (induction d k v rule: setitem.induct) simp_all

lemma setitem_values_subset: "set (map snd (setitem d k v)) \<subseteq> insert v (set (map snd d))"
  by (induction d k v rule: setitem.induct) auto

lemma find_unique:
  assumes "x \<in> set xs" and "P x" and "\<forall>y \<in> set xs. P y \<longrightarrow> y = x"
  shows "List.find P xs = Some x"
  using assms
proof (induction xs)
  case Nil
  then show ?case by simp
next
  case (Cons a xs)
  show ?case
  proof (cases "P a")
    case True
    with Cons.prems(3) have "a = x" by simp
    with True show ?thesis by simp
  next
    case False
    with Cons.prems(1,2) have "x \<in> set xs" by auto
    moreover from Cons.prems(3) have "\<forall>y \<in> set xs. P y \<longrightarrow> y = x" by simp
    ultimately have "List.find P xs = Some x" using Cons.prems(2) by (intro Cons.IH)
    with False show ?thesis by simp
  qed
qed

subsection \<open>The first element of a generator\<close>

lemma case_filter_find:
  "(case filter P xs of [] \<Rightarrow> a | x # _ \<Rightarrow> f x) = (case List.find P xs of None \<Rightarrow> a | Some x \<Rightarrow> f x)"
  by (induction xs) simp_all

lemma authenticate_user_find:
  "authenticate_user ps s nm pw =
     (case List.find (\<lambda>x. name (heap s x) = nm \<and> \<not> deleted (heap s x)) (values_of s) of
        None \<Rightarrow> None
      | Some u \<Rightarrow> if verify ps pw (password (heap s u)) then Some u else None)"
  unfolding authenticate_user_def by (rule case_filter_find)

lemma load_user_find:
  "load_user s sid = List.find (\<lambda>x. alternative_id (heap s x) = sid) (values_of s)"
  unfolding load_user_def by (simp add: case_filter_find split: option.splits)

lemma authenticate_user_no_holder:
  assumes "\<forall>r \<in> set (values_of s). \<not> (name (heap s r) = nm \<and> \<not> deleted (heap s r))"
  shows "authenticate_user ps s nm pw = None"
proof -
  have "List.find (\<lambda>x. name (heap s x) = nm \<and> \<not> deleted (heap s x)) (values_of s) = None"
    using assms by (simp add: find_None_iff)
  then show ?thesis by (simp add: authenticate_user_find)
qed

lemma load_user_None_iff:
  "load_user s sid = None \<longleftrightarrow> (\<forall>r \<in> set (values_of s). alternative_id (heap s r) \<noteq> sid)"
  by (auto simp: load_user_find find_None_iff)

lemma change_password_success:
  assumes "current_user s = Some cu"
    and "verify ps current_password (password (heap s cu))"
  shows "change_password ps uuid s current_password new_password =
           Inr (Body \<lparr>status = 200, message = ''Password Change Successful''\<rparr>,
                s\<lparr>heap := (heap s)(cu := (heap s cu)\<lparr>password := hash ps new_password,
                                                     alternative_id := uuid\<rparr>)\<rparr>)"
  using assms by (simp add: change_password_def Let_def)

subsection \<open>The cases of \<^verbatim>\<open>register_new_user\<close>, \<^verbatim>\<open>login\<close> and \<^verbatim>\<open>delete_current_user\<close>\<close>

lemma register_new_user_mismatch:
  "pw \<noteq> c \<Longrightarrow> register_new_user ps uuid s nm pw c =
     (BodyCode \<lparr>status = 403,
        message = ''The password and confirmation password did not match.''\<rparr> 403, s)"
  by (simp add: register_new_user_def)

lemma register_new_user_taken:
  assumes "pw = c"
    and "\<exists>r \<in> set (values_of s). name (heap s r) = nm \<and> \<not> deleted (heap s r)"
  shows "register_new_user ps uuid s nm pw c =
     (BodyCode \<lparr>status = 403, message = ''The username '' @ nm @ '' is not available.''\<rparr> 403, s)"
proof -
  from assms(2) have "filter (\<lambda>x. name (heap s x) = nm \<and> \<not> deleted (heap s x)) (values_of s) \<noteq> []"
    by (simp add: filter_empty_conv)
  with assms(1) show ?thesis by (simp add: register_new_user_def)
qed

lemma register_new_user_free:
  assumes "pw = c"
    and "\<not> (\<exists>r \<in> set (values_of s). name (heap s r) = nm \<and> \<not> deleted (heap s r))"
  shows "register_new_user ps uuid s nm pw c =
     (Body \<lparr>status = 200, message = ''User '' @ nm @ '' registration successful''\<rparr>,
      s\<lparr>heap := (heap s)(lim s :=
             \<lparr>id_user = new_id s, alternative_id = uuid, name = nm,
              password = hash ps pw, deleted = False\<rparr>),
        lim := Suc (lim s),
        users := setitem (users s) (str_int (new_id s)) (lim s)\<rparr>)"
proof -
  from assms(2) have "filter (\<lambda>x. name (heap s x) = nm \<and> \<not> deleted (heap s x)) (values_of s) = []"
    by (simp add: filter_empty_conv)
  with assms(1) show ?thesis by (simp add: register_new_user_def)
qed

lemma register_new_user_success_iff:
  "fst (register_new_user ps uuid s nm pw c) =
     Body \<lparr>status = 200, message = ''User '' @ nm @ '' registration successful''\<rparr>
   \<longleftrightarrow> pw = c \<and> \<not> (\<exists>r \<in> set (values_of s). name (heap s r) = nm \<and> \<not> deleted (heap s r))"
proof (cases "pw = c")
  case False
  then show ?thesis by (simp add: register_new_user_mismatch)
next
  case True
  note eq = this
  show ?thesis
  proof (cases "\<exists>r \<in> set (values_of s). name (heap s r) = nm \<and> \<not> deleted (heap s r)")
    case True
    from register_new_user_taken [OF eq True] True show ?thesis by simp
  next
    case False
    from register_new_user_free [OF eq False] False eq show ?thesis by simp
  qed
qed

lemma registered_state:
  assumes "fst (register_new_user ps uuid s nm pw c) =
             Body \<lparr>status = 200, message = ''User '' @ nm @ '' registration successful''\<rparr>"
  shows "snd (register_new_user ps uuid s nm pw c) =
           s\<lparr>heap := (heap s)(lim s :=
                  \<lparr>id_user = new_id s, alternative_id = uuid, name = nm,
                   password = hash ps pw, deleted = False\<rparr>),
             lim := Suc (lim s),
             users := setitem (users s) (str_int (new_id s)) (lim s)\<rparr>"
proof -
  from assms have "pw = c \<and>
      \<not> (\<exists>r \<in> set (values_of s). name (heap s r) = nm \<and> \<not> deleted (heap s r))"
    by (rule register_new_user_success_iff [THEN iffD1])
  then have "pw = c"
    and "\<not> (\<exists>r \<in> set (values_of s). name (heap s r) = nm \<and> \<not> deleted (heap s r))"
    by blast+
  from register_new_user_free [OF this] show ?thesis by (simp only: snd_conv)
qed

lemma registered_holder:
  assumes "fst (register_new_user ps uuid s nm pw c) =
             Body \<lparr>status = 200, message = ''User '' @ nm @ '' registration successful''\<rparr>"
    and "s1 = snd (register_new_user ps uuid s nm pw c)"
  shows "lim s \<in> set (values_of s1)"
    and "heap s1 (lim s) = \<lparr>id_user = new_id s, alternative_id = uuid, name = nm,
                             password = hash ps pw, deleted = False\<rparr>"
    and "\<forall>r \<in> set (values_of s1). name (heap s1 r) = nm \<and> \<not> deleted (heap s1 r) \<longrightarrow> r = lim s"
    and "current_user s1 = current_user s"
proof -
  have s1: "s1 = s\<lparr>heap := (heap s)(lim s :=
                  \<lparr>id_user = new_id s, alternative_id = uuid, name = nm,
                   password = hash ps pw, deleted = False\<rparr>),
             lim := Suc (lim s),
             users := setitem (users s) (str_int (new_id s)) (lim s)\<rparr>"
    using registered_state [OF assms(1)] assms(2) by simp
  from assms(1) have "pw = c \<and>
      \<not> (\<exists>r \<in> set (values_of s). name (heap s r) = nm \<and> \<not> deleted (heap s r))"
    by (rule register_new_user_success_iff [THEN iffD1])
  then have free: "\<forall>r \<in> set (values_of s). \<not> (name (heap s r) = nm \<and> \<not> deleted (heap s r))"
    by blast
  show "lim s \<in> set (values_of s1)"
    using setitem_value_in [of "lim s" "users s" "str_int (new_id s)"] by (simp add: s1 values_of_def)
  show "heap s1 (lim s) = \<lparr>id_user = new_id s, alternative_id = uuid, name = nm,
                             password = hash ps pw, deleted = False\<rparr>"
    by (simp add: s1)
  show "current_user s1 = current_user s" by (simp add: s1)
  show "\<forall>r \<in> set (values_of s1). name (heap s1 r) = nm \<and> \<not> deleted (heap s1 r) \<longrightarrow> r = lim s"
  proof (intro ballI impI)
    fix r
    assume r: "r \<in> set (values_of s1)" and h: "name (heap s1 r) = nm \<and> \<not> deleted (heap s1 r)"
    show "r = lim s"
    proof (rule ccontr)
      assume ne: "r \<noteq> lim s"
      from r have "r \<in> set (map snd (setitem (users s) (str_int (new_id s)) (lim s)))"
        by (simp add: s1 values_of_def)
      with setitem_values_subset [of "users s" "str_int (new_id s)" "lim s"] ne
      have rs: "r \<in> set (values_of s)" by (auto simp: values_of_def)
      from ne have hs: "heap s1 r = heap s r" by (simp add: s1)
      note h' = h [unfolded hs]
      from free rs have "\<not> (name (heap s r) = nm \<and> \<not> deleted (heap s r))" by (rule bspec)
      with h' show False by (rule notE [rotated])
    qed
  qed
qed

lemma find_SomeD: "List.find P xs = Some x \<Longrightarrow> x \<in> set xs \<and> P x"
  by (induction xs) (simp_all split: if_splits)

lemma authenticate_user_SomeD:
  assumes "authenticate_user ps s nm pw = Some u"
  shows "u \<in> set (values_of s)" and "name (heap s u) = nm" and "\<not> deleted (heap s u)"
    and "verify ps pw (password (heap s u))"
proof -
  let ?P = "\<lambda>x. name (heap s x) = nm \<and> \<not> deleted (heap s x)"
  from assms obtain v where v: "List.find ?P (values_of s) = Some v"
    by (cases "List.find ?P (values_of s)") (simp_all add: authenticate_user_find)
  with assms have vu: "v = u" and ok: "verify ps pw (password (heap s v))"
    by (simp_all add: authenticate_user_find split: if_splits)
  from v have "v \<in> set (values_of s) \<and> ?P v" by (rule find_SomeD)
  then show "u \<in> set (values_of s)" and "name (heap s u) = nm" and "\<not> deleted (heap s u)"
    unfolding vu by blast+
  from ok show "verify ps pw (password (heap s u))" unfolding vu .
qed





subsection \<open>The invariant and the operations\<close>

lemma wf_entry:
  assumes "wf_state s" and "(k, r) \<in> set (users s)"
  shows "r < lim s" and "k = str_int (id_user (heap s r))" and "1 \<le> id_user (heap s r)"
  using assms unfolding wf_state_def by blast+

lemma values_of_entry: "r \<in> set (values_of s) \<Longrightarrow> \<exists>k. (k, r) \<in> set (users s)"
  unfolding values_of_def by auto

lemma wf_value:
  assumes "wf_state s" and "r \<in> set (values_of s)"
  shows "r < lim s" and "1 \<le> id_user (heap s r)"
proof -
  from values_of_entry [OF assms(2)] obtain k where "(k, r) \<in> set (users s)" ..
  from wf_entry [OF assms(1) this] show "r < lim s" and "1 \<le> id_user (heap s r)" by blast+
qed

lemma wf_lim_fresh: "wf_state s \<Longrightarrow> lim s \<notin> set (values_of s)"
  using wf_value(1) [of s "lim s"] by blast

lemma wf_key_fresh:
  assumes "wf_state s"
  shows "str_int (new_id s) \<notin> set (map fst (users s))"
proof
  assume "str_int (new_id s) \<in> set (map fst (users s))"
  then obtain r where e: "(str_int (new_id s), r) \<in> set (users s)" by auto
  then have r: "r \<in> set (values_of s)" unfolding values_of_def by force
  from wf_entry [OF assms e] have k: "str_int (new_id s) = str_int (id_user (heap s r))"
    and pos: "1 \<le> id_user (heap s r)" by blast+
  from new_id_positive [of s] have "0 \<le> new_id s" by simp
  moreover from pos have "0 \<le> id_user (heap s r)" by simp
  ultimately have "new_id s = id_user (heap s r)" using k by (rule str_int_inj_nonneg)
  with new_id_greater [OF r] show False by simp
qed


lemma wf_dests:
  assumes "wf_state s"
  shows "distinct (map fst (users s))" and "distinct (values_of s)"
    and "\<forall>r \<in> set (values_of s). \<forall>r' \<in> set (values_of s).
           name (heap s r) = name (heap s r') \<and> \<not> deleted (heap s r) \<and> \<not> deleted (heap s r')
           \<longrightarrow> r = r'"
    and "case current_user s of None \<Rightarrow> True | Some cu \<Rightarrow> cu \<in> set (values_of s)"
  using assms unfolding wf_state_def by blast+

lemma wfI:
  assumes "distinct (map fst (users s))" and "distinct (values_of s)"
    and "\<And>k r. (k, r) \<in> set (users s) \<Longrightarrow>
           r < lim s \<and> k = str_int (id_user (heap s r)) \<and> 1 \<le> id_user (heap s r)"
    and "\<And>r r'. r \<in> set (values_of s) \<Longrightarrow> r' \<in> set (values_of s) \<Longrightarrow>
           name (heap s r) = name (heap s r') \<Longrightarrow> \<not> deleted (heap s r) \<Longrightarrow>
           \<not> deleted (heap s r') \<Longrightarrow> r = r'"
    and "\<And>cu. current_user s = Some cu \<Longrightarrow> cu \<in> set (values_of s)"
  shows "wf_state s"
proof -
  have "\<forall>(k, r) \<in> set (users s).
           r < lim s \<and> k = str_int (id_user (heap s r)) \<and> 1 \<le> id_user (heap s r)"
    using assms(3) by blast
  moreover have "\<forall>r \<in> set (values_of s). \<forall>r' \<in> set (values_of s).
           name (heap s r) = name (heap s r') \<and> \<not> deleted (heap s r) \<and> \<not> deleted (heap s r')
           \<longrightarrow> r = r'"
    using assms(4) by blast
  moreover have "case current_user s of None \<Rightarrow> True | Some cu \<Rightarrow> cu \<in> set (values_of s)"
    using assms(5) by (cases "current_user s") simp_all
  ultimately show ?thesis using assms(1,2) unfolding wf_state_def by blast
qed

lemma wf_current: "wf_state s \<Longrightarrow> current_user s = Some cu \<Longrightarrow> cu \<in> set (values_of s)"
  using wf_dests(4) [of s] by simp

lemma wf_names:
  assumes "wf_state s" and "r \<in> set (values_of s)" and "r' \<in> set (values_of s)"
    and "name (heap s r) = name (heap s r')" and "\<not> deleted (heap s r)" and "\<not> deleted (heap s r')"
  shows "r = r'"
  using wf_dests(3) [OF assms(1)] assms(2-6) by blast

lemma wf_empty: "users s = [] \<Longrightarrow> current_user s = None \<Longrightarrow> wf_state s"
  unfolding wf_state_def values_of_def by simp

lemma wf_frame:
  assumes "wf_state s"
    and "users s' = users s" and "lim s' = lim s" and "current_user s' = current_user s"
    and "\<And>r. r \<in> set (values_of s) \<Longrightarrow> id_user (heap s' r) = id_user (heap s r)"
    and "\<And>r. r \<in> set (values_of s) \<Longrightarrow> name (heap s' r) = name (heap s r)"
    and "\<And>r. r \<in> set (values_of s) \<Longrightarrow> \<not> deleted (heap s' r) \<Longrightarrow> \<not> deleted (heap s r)"
  shows "wf_state s'"
proof (rule wfI)
  have v: "values_of s' = values_of s" by (simp add: values_of_def assms(2))
  show "distinct (map fst (users s'))" using wf_dests(1) [OF assms(1)] by (simp add: assms(2))
  show "distinct (values_of s')" using wf_dests(2) [OF assms(1)] by (simp add: v)
  show "r < lim s' \<and> k = str_int (id_user (heap s' r)) \<and> 1 \<le> id_user (heap s' r)"
    if "(k, r) \<in> set (users s')" for k r
  proof -
    from that have e: "(k, r) \<in> set (users s)" by (simp add: assms(2))
    then have "r \<in> set (values_of s)" unfolding values_of_def by force
    then have "id_user (heap s' r) = id_user (heap s r)" by (rule assms(5))
    with wf_entry [OF assms(1) e] show ?thesis by (simp add: assms(3))
  qed
  show "r = r'" if "r \<in> set (values_of s')" and "r' \<in> set (values_of s')"
    and "name (heap s' r) = name (heap s' r')" and "\<not> deleted (heap s' r)"
    and "\<not> deleted (heap s' r')" for r r'
  proof -
    from that(1,2) have r: "r \<in> set (values_of s)" and r': "r' \<in> set (values_of s)"
      by (simp_all add: v)
    from that(3) have "name (heap s r) = name (heap s r')"
      by (simp add: assms(6) [OF r] assms(6) [OF r'])
    moreover have "\<not> deleted (heap s r)" using r that(4) by (rule assms(7))
    moreover have "\<not> deleted (heap s r')" using r' that(5) by (rule assms(7))
    ultimately show ?thesis using wf_names [OF assms(1) r r'] by blast
  qed
  show "cu \<in> set (values_of s')" if "current_user s' = Some cu" for cu
    using that wf_current [OF assms(1), of cu] by (simp add: v assms(4))
qed

lemma wf_change_password:
  assumes "wf_state s" and "change_password ps uuid s cur new = Inr (resp, s')"
  shows "wf_state s'"
proof (cases "current_user s")
  case None
  with assms(2) show ?thesis by (simp add: change_password_def)
next
  case (Some cu)
  show ?thesis
  proof (cases "verify ps cur (password (heap s cu))")
    case False
    with Some assms show ?thesis by (simp add: change_password_def)
  next
    case True
    from change_password_success [OF Some True] assms(2)
    have s': "s' = s\<lparr>heap := (heap s)(cu := (heap s cu)\<lparr>password := hash ps new,
                                                        alternative_id := uuid\<rparr>)\<rparr>"
      by simp
    show ?thesis by (rule wf_frame [OF assms(1)]) (simp_all add: s' split: if_splits)
  qed
qed

lemma wf_delete_current_user:
  assumes "wf_state s" and "delete_current_user ps s pw = Inr (resp, s')"
  shows "wf_state s'"
proof (cases "current_user s")
  case None
  with assms(2) show ?thesis by (simp add: delete_current_user_def)
next
  case (Some cu)
  show ?thesis
  proof (cases "verify ps pw (password (heap s cu))")
    case False
    with Some assms show ?thesis by (simp add: delete_current_user_def)
  next
    case True
    with Some assms(2)
    have s': "s' = s\<lparr>heap := (heap s)(cu := (heap s cu)\<lparr>deleted := True\<rparr>)\<rparr>"
      by (simp add: delete_current_user_def)
    show ?thesis by (rule wf_frame [OF assms(1)]) (simp_all add: s' split: if_splits)
  qed
qed

lemma wf_login:
  assumes "wf_state s"
  shows "wf_state (snd (login ps s nm pw))"
proof (cases "authenticate_user ps s nm pw")
  case None
  with assms show ?thesis by (simp add: login_def)
next
  case (Some u)
  then have s': "snd (login ps s nm pw) = s\<lparr>current_user := Some u\<rparr>" by (simp add: login_def)
  from authenticate_user_SomeD(1) [OF Some] have u: "u \<in> set (values_of s)" .
  show ?thesis
  proof (rule wfI)
    show "distinct (map fst (users (snd (login ps s nm pw))))"
      using wf_dests(1) [OF assms] by (simp add: s')
    show "distinct (values_of (snd (login ps s nm pw)))"
      using wf_dests(2) [OF assms] by (simp add: s' values_of_def)
    show "r < lim (snd (login ps s nm pw))
            \<and> k = str_int (id_user (heap (snd (login ps s nm pw)) r))
            \<and> 1 \<le> id_user (heap (snd (login ps s nm pw)) r)"
      if "(k, r) \<in> set (users (snd (login ps s nm pw)))" for k r
      using that wf_entry [OF assms, of k r] by (simp add: s')
    show "r = r'" if "r \<in> set (values_of (snd (login ps s nm pw)))"
      and "r' \<in> set (values_of (snd (login ps s nm pw)))"
      and "name (heap (snd (login ps s nm pw)) r) = name (heap (snd (login ps s nm pw)) r')"
      and "\<not> deleted (heap (snd (login ps s nm pw)) r)"
      and "\<not> deleted (heap (snd (login ps s nm pw)) r')" for r r'
      using that wf_names [OF assms, of r r'] by (simp add: s' values_of_def)
    show "cu \<in> set (values_of (snd (login ps s nm pw)))"
      if "current_user (snd (login ps s nm pw)) = Some cu" for cu
      using that u by (simp add: s' values_of_def)
  qed
qed

lemma wf_logout:
  assumes "wf_state s"
  shows "wf_state (snd (logout uuid s everywhere))"
proof -
  define s1 where "s1 = (if everywhere
                then (case current_user s of
                        None \<Rightarrow> s
                      | Some cu \<Rightarrow>
                          s\<lparr>heap := (heap s)(cu := (heap s cu)\<lparr>alternative_id := uuid\<rparr>)\<rparr>)
                else s)"
  have "wf_state s1"
    by (rule wf_frame [OF assms]) (simp_all add: s1_def split: option.splits if_splits)
  then have "wf_state (s1\<lparr>current_user := None\<rparr>)"
    unfolding wf_state_def values_of_def by simp
  then show ?thesis by (simp add: logout_def s1_def)
qed

lemma registered_appended:
  assumes "wf_state s"
    and "fst (register_new_user ps uuid s nm pw c) =
           Body \<lparr>status = 200, message = ''User '' @ nm @ '' registration successful''\<rparr>"
  shows "users (snd (register_new_user ps uuid s nm pw c)) =
           users s @ [(str_int (new_id s), lim s)]"
    and "\<forall>r \<in> set (values_of s). heap (snd (register_new_user ps uuid s nm pw c)) r = heap s r"
proof -
  let ?s1 = "snd (register_new_user ps uuid s nm pw c)"
  note s1 = registered_state [OF assms(2)]
  have fresh: "lim s \<notin> set (values_of s)" using assms(1) by (rule wf_lim_fresh)
  have "users ?s1 = setitem (users s) (str_int (new_id s)) (lim s)"
    by (simp add: s1)
  also have "\<dots> = users s @ [(str_int (new_id s), lim s)]"
    using wf_key_fresh [OF assms(1)] by (rule setitem_fresh)
  finally show "users ?s1 = users s @ [(str_int (new_id s), lim s)]" .
  show "\<forall>r \<in> set (values_of s). heap ?s1 r = heap s r"
  proof
    fix r assume "r \<in> set (values_of s)"
    with fresh have "r \<noteq> lim s" by blast
    then show "heap ?s1 r = heap s r" by (simp add: s1)
  qed
qed

lemma wf_register_new_user:
  assumes "wf_state s"
  shows "wf_state (snd (register_new_user ps uuid s nm pw c))"
proof (cases "fst (register_new_user ps uuid s nm pw c) =
           Body \<lparr>status = 200, message = ''User '' @ nm @ '' registration successful''\<rparr>")
  case False
  then have "pw \<noteq> c \<or> (\<exists>r \<in> set (values_of s). name (heap s r) = nm \<and> \<not> deleted (heap s r))"
    using register_new_user_success_iff [of ps uuid s nm pw c] by blast
  then have "snd (register_new_user ps uuid s nm pw c) = s"
  proof
    assume "pw \<noteq> c"
    then show ?thesis by (simp add: register_new_user_mismatch)
  next
    assume h: "\<exists>r \<in> set (values_of s). name (heap s r) = nm \<and> \<not> deleted (heap s r)"
    show ?thesis
    proof (cases "pw = c")
      case True
      from register_new_user_taken [OF True h] show ?thesis by simp
    next
      case False
      then show ?thesis by (simp add: register_new_user_mismatch)
    qed
  qed
  with assms show ?thesis by simp
next
  case True
  let ?s1 = "snd (register_new_user ps uuid s nm pw c)"
  let ?k = "str_int (new_id s)"
  note h = registered_holder [OF True refl]
  note us = registered_appended(1) [OF assms True]
  note old = registered_appended(2) [OF assms True]
  note cu = h(4)
  have lim1: "lim ?s1 = Suc (lim s)" by (simp add: registered_state [OF True])
  have vs: "values_of ?s1 = values_of s @ [lim s]" by (simp add: values_of_def us)
  have fresh: "lim s \<notin> set (values_of s)" using assms by (rule wf_lim_fresh)
  show ?thesis
  proof (rule wfI)
    show "distinct (map fst (users ?s1))"
      using wf_dests(1) [OF assms] wf_key_fresh [OF assms] by (simp add: us)
    show "distinct (values_of ?s1)"
      using wf_dests(2) [OF assms] fresh by (simp add: vs)
    show "r < lim ?s1 \<and> k = str_int (id_user (heap ?s1 r)) \<and> 1 \<le> id_user (heap ?s1 r)"
      if "(k, r) \<in> set (users ?s1)" for k r
    proof (cases "(k, r) \<in> set (users s)")
      case True
      then have "r \<in> set (values_of s)" unfolding values_of_def by force
      with old have "heap ?s1 r = heap s r" by blast
      with wf_entry [OF assms True] show ?thesis by (simp add: lim1)
    next
      case False
      with that have "k = ?k" and "r = lim s" by (simp_all add: us)
      with new_id_positive [of s] show ?thesis by (simp add: lim1 h(2))
    qed
    show "r = r'" if r: "r \<in> set (values_of ?s1)" and r': "r' \<in> set (values_of ?s1)"
      and n: "name (heap ?s1 r) = name (heap ?s1 r')" and d: "\<not> deleted (heap ?s1 r)"
      and d': "\<not> deleted (heap ?s1 r')" for r r'
    proof (cases "name (heap ?s1 r) = nm")
      case True
      with h(3) r d have "r = lim s" by blast
      moreover from True n h(3) r' d' have "r' = lim s" by simp
      ultimately show ?thesis by simp
    next
      case False
      then have "r \<noteq> lim s" by (auto simp: h(2))
      with r have rs: "r \<in> set (values_of s)" by (simp add: vs)
      from False n have "r' \<noteq> lim s" by (auto simp: h(2))
      with r' have rs': "r' \<in> set (values_of s)" by (simp add: vs)
      from old rs have e: "heap ?s1 r = heap s r" by blast
      from old rs' have e': "heap ?s1 r' = heap s r'" by blast
      from n d d' show ?thesis unfolding e e' by (rule wf_names [OF assms rs rs'])
    qed
    show "u \<in> set (values_of ?s1)" if "current_user ?s1 = Some u" for u
      using that wf_current [OF assms, of u] by (simp add: cu vs)
  qed
qed

lemma delete_current_user_ok:
  assumes "current_user s = Some cu" and "verify ps pw (password (heap s cu))"
  shows "delete_current_user ps s pw =
           Inr (Body \<lparr>status = 200, message = ''Current user deleted successfully.''\<rparr>,
                s\<lparr>heap := (heap s)(cu := (heap s cu)\<lparr>deleted := True\<rparr>)\<rparr>)"
  using assms by (simp add: delete_current_user_def)

lemma deleted_no_holder:
  assumes "wf_state s" and "current_user s = Some cu" and "\<not> deleted (heap s cu)"
    and "s' = s\<lparr>heap := (heap s)(cu := (heap s cu)\<lparr>deleted := True\<rparr>)\<rparr>"
  shows "\<forall>r \<in> set (values_of s'). \<not> (name (heap s' r) = name (heap s cu) \<and> \<not> deleted (heap s' r))"
proof
  fix r assume r: "r \<in> set (values_of s')"
  then have rs: "r \<in> set (values_of s)" by (simp add: assms(4) values_of_def)
  from wf_current [OF assms(1,2)] have cu: "cu \<in> set (values_of s)" .
  show "\<not> (name (heap s' r) = name (heap s cu) \<and> \<not> deleted (heap s' r))"
  proof (cases "r = cu")
    case True
    then show ?thesis by (simp add: assms(4))
  next
    case False
    then have e: "heap s' r = heap s r" by (simp add: assms(4))
    show ?thesis
    proof
      assume "name (heap s' r) = name (heap s cu) \<and> \<not> deleted (heap s' r)"
      then have "name (heap s r) = name (heap s cu)" and "\<not> deleted (heap s r)"
        unfolding e by blast+
      from wf_names [OF assms(1) rs cu this assms(3)] False show False by simp
    qed
  qed
qed

lemma load_user_unique:
  assumes "r \<in> set (values_of s)" and "alternative_id (heap s r) = sid"
    and "\<forall>r' \<in> set (values_of s). alternative_id (heap s r') = sid \<longrightarrow> r' = r"
  shows "load_user s sid = Some r"
proof -
  from assms have "List.find (\<lambda>x. alternative_id (heap s x) = sid) (values_of s) = Some r"
    by (rule find_unique)
  then show "load_user s sid = Some r" by (simp only: load_user_find)
qed

lemma load_user_some:
  assumes "r \<in> set (values_of s)" and "alternative_id (heap s r) = sid"
  shows "\<exists>r'. load_user s sid = Some r' \<and> r' \<in> set (values_of s)
               \<and> alternative_id (heap s r') = sid"
proof (cases "load_user s sid")
  case None
  then have "\<forall>x \<in> set (values_of s). alternative_id (heap s x) \<noteq> sid"
    by (simp only: load_user_None_iff)
  with assms show ?thesis by blast
next
  case (Some r')
  then have "List.find (\<lambda>x. alternative_id (heap s x) = sid) (values_of s) = Some r'"
    by (simp only: load_user_find)
  from find_SomeD [OF this] have "r' \<in> set (values_of s)" and "alternative_id (heap s r') = sid"
    by blast+
  with Some show ?thesis by (intro exI [of _ r'] conjI)
qed

lemma load_user_after_delete:
  assumes "current_user s = Some r" and "verify ps pw (password (heap s r))"
    and "r \<in> set (values_of s)" and "alternative_id (heap s r) = sid"
    and "\<forall>r' \<in> set (values_of s). alternative_id (heap s r') = sid \<longrightarrow> r' = r"
  shows "\<exists>s'. delete_current_user ps s pw =
                 Inr (Body \<lparr>status = 200, message = ''Current user deleted successfully.''\<rparr>, s')
              \<and> deleted (heap s' r) \<and> load_user s' sid = Some r"
proof -
  define s' where "s' = s\<lparr>heap := (heap s)(r := (heap s r)\<lparr>deleted := True\<rparr>)\<rparr>"
  have v: "values_of s' = values_of s" by (simp add: values_of_def s'_def)
  have alt: "alternative_id (heap s' y) = alternative_id (heap s y)" for y by (simp add: s'_def)
  have 1: "r \<in> set (values_of s')" using assms(3) by (simp only: v)
  have 2: "alternative_id (heap s' r) = sid" using assms(4) by (simp only: alt)
  have 3: "\<forall>r' \<in> set (values_of s'). alternative_id (heap s' r') = sid \<longrightarrow> r' = r"
    using assms(5) by (simp only: v alt)
  from 1 2 3 have a: "load_user s' sid = Some r" by (rule load_user_unique)
  have b: "deleted (heap s' r)" by (simp add: s'_def)
  have c: "delete_current_user ps s pw =
             Inr (Body \<lparr>status = 200, message = ''Current user deleted successfully.''\<rparr>, s')"
    unfolding s'_def using assms(1,2) by (rule delete_current_user_ok)
  from c b a show ?thesis by (intro exI [of _ s'] conjI)
qed

subsection \<open>A run from the empty store\<close>

lemma str_int_1: "str_int 1 = ''1''"
  by code_simp

lemma str_int_2: "str_int 2 = ''2''"
  by code_simp

lemma run_register:
  "register_new_user ps0 ''a1'' st_empty ''alice'' ''pw'' ''pw'' =
     (Body \<lparr>status = 200, message = ''User alice registration successful''\<rparr>, st_registered)"
  by (simp add: register_new_user_def st_empty_def st_registered_def values_of_def new_id_def
      str_int_1 user_alice_def ps0_def)

lemma run_login:
  "login ps0 st_registered ''alice'' ''pw'' =
     (Body \<lparr>status = 200, message = ''login success''\<rparr>, st_alice)"
  by (simp add: login_def authenticate_user_def st_registered_def st_alice_def values_of_def
      user_alice_def ps0_def)

lemma run_delete:
  "delete_current_user ps0 st_alice ''pw'' =
     Inr (Body \<lparr>status = 200, message = ''Current user deleted successfully.''\<rparr>, st_deleted)"
  by (simp add: delete_current_user_def st_alice_def st_deleted_def user_alice_def ps0_def)

lemma run_register_again:
  "register_new_user ps0 ''a2'' st_deleted ''alice'' ''pw'' ''pw'' =
     (Body \<lparr>status = 200, message = ''User alice registration successful''\<rparr>, st_rereg)"
  by (simp add: register_new_user_def st_deleted_def st_rereg_def values_of_def new_id_def
      str_int_2 user_alice_def user_alice2_def ps0_def)

lemma wf_state_st_alice: "wf_state st_alice"
  by (simp add: wf_state_def st_alice_def values_of_def user_alice_def str_int_1)

lemma wf_state_st_rereg: "wf_state st_rereg"
  by (simp add: wf_state_def st_rereg_def values_of_def user_alice_def user_alice2_def
      str_int_1 str_int_2)

lemma run_delete_again:
  "delete_current_user ps0 st_rereg ''pw'' =
     Inr (Body \<lparr>status = 200, message = ''Current user deleted successfully.''\<rparr>, st_rereg)"
  by (simp add: delete_current_user_def st_rereg_def user_alice_def ps0_def fun_eq_iff)

lemma run_authenticate:
  "authenticate_user ps0 st_rereg ''alice'' ''pw'' = Some 1"
  by (simp add: authenticate_user_def st_rereg_def values_of_def user_alice_def user_alice2_def ps0_def)

lemma wf_state_st_deleted: "wf_state st_deleted"
  by (simp add: wf_state_def st_deleted_def values_of_def user_alice_def str_int_1)

lemma wf_state_st_empty: "wf_state st_empty"
  by (simp add: wf_empty st_empty_def)

section \<open>Properties of the user service\<close>

text \<open>
  C1: \<^verbatim>\<open>authenticate_user\<close> returns \<^verbatim>\<open>None\<close> when no non-deleted user has the name,
  and returns \<^verbatim>\<open>None\<close> as well when the non-deleted user of that name that the loop
  finds fails the password verification: the two causes give the same return value, in
  every state of the store.
\<close>

theorem authenticate_user_uniform_failure:
  "((\<forall>r \<in> set (values_of s). \<not> (name (heap s r) = nm \<and> \<not> deleted (heap s r)))
      \<longrightarrow> authenticate_user ps s nm pw = None)
   \<and> (\<forall>r. List.find (\<lambda>x. name (heap s x) = nm \<and> \<not> deleted (heap s x)) (values_of s) = Some r
            \<and> \<not> verify ps pw (password (heap s r))
      \<longrightarrow> authenticate_user ps s nm pw = None)"
  using authenticate_user_no_holder [of s nm ps pw] by (auto simp: authenticate_user_find)

theorem authenticate_user_uniform_failure_witness:
  "authenticate_user ps0 st_empty ''alice'' ''pw'' = None
   \<and> authenticate_user ps0 st_alice ''alice'' ''wrong'' = None"
proof -
  have h1: "\<forall>r \<in> set (values_of st_empty).
              \<not> (name (heap st_empty r) = ''alice'' \<and> \<not> deleted (heap st_empty r))"
    by (simp add: st_empty_def values_of_def)
  have h2: "List.find (\<lambda>x. name (heap st_alice x) = ''alice'' \<and> \<not> deleted (heap st_alice x))
              (values_of st_alice) = Some 0
            \<and> \<not> verify ps0 ''wrong'' (password (heap st_alice 0))"
    by (simp add: st_alice_def user_alice_def values_of_def ps0_def)
  from h1 authenticate_user_uniform_failure [where s = st_empty and nm = "''alice''"]
  have "authenticate_user ps0 st_empty ''alice'' ''pw'' = None" by blast
  moreover from h2 authenticate_user_uniform_failure [where s = st_alice and nm = "''alice''"]
  have "authenticate_user ps0 st_alice ''alice'' ''wrong'' = None" by blast
  ultimately show ?thesis by simp
qed

text \<open>
  C2: when the current password does not verify against the current user's stored hash,
  \<^verbatim>\<open>change_password\<close> answers with the 403 result and the state it leaves is the state
  it found: no field of any user record has changed.
\<close>

theorem change_password_wrong_password:
  assumes "current_user s = Some cu"
    and "\<not> verify ps current_password (password (heap s cu))"
  shows "change_password ps uuid s current_password new_password =
           Inr (BodyCode \<lparr>status = 403, message = ''Password Change Failed''\<rparr> 403, s)"
  using assms by (simp add: change_password_def)

theorem change_password_wrong_password_witness:
  "change_password ps0 ''a2'' st_alice ''wrong'' ''new'' =
     Inr (BodyCode \<lparr>status = 403, message = ''Password Change Failed''\<rparr> 403, st_alice)"
proof -
  have h1: "current_user st_alice = Some 0" by (simp add: st_alice_def)
  have h2: "\<not> verify ps0 ''wrong'' (password (heap st_alice 0))"
    by (simp add: st_alice_def user_alice_def ps0_def)
  from change_password_wrong_password [OF h1 h2] show ?thesis .
qed

text \<open>
  C3: a successful \<^verbatim>\<open>change_password\<close> by the user whose alternative id was \<open>a\<close> stores
  the new hash and the fresh alternative id; when the fresh id differs from \<open>a\<close> and no
  other record of the store holds \<open>a\<close>, \<^verbatim>\<open>load_user(a)\<close> returns \<^verbatim>\<open>None\<close> afterwards.
\<close>

theorem change_password_invalidates_session:
  assumes "current_user s = Some cu"
    and "alternative_id (heap s cu) = a"
    and "verify ps current_password (password (heap s cu))"
    and "uuid \<noteq> a"
    and "\<forall>r \<in> set (values_of s). r \<noteq> cu \<longrightarrow> alternative_id (heap s r) \<noteq> a"
  shows "\<exists>s'. change_password ps uuid s current_password new_password =
                 Inr (Body \<lparr>status = 200, message = ''Password Change Successful''\<rparr>, s')
              \<and> password (heap s' cu) = hash ps new_password
              \<and> alternative_id (heap s' cu) = uuid
              \<and> load_user s' a = None"
proof -
  let ?s' = "s\<lparr>heap := (heap s)(cu := (heap s cu)\<lparr>password := hash ps new_password,
                                                     alternative_id := uuid\<rparr>)\<rparr>"
  have "load_user ?s' a = None"
    using assms(4,5) by (simp add: load_user_None_iff values_of_def)
  then show ?thesis
    using change_password_success [OF assms(1,3)] by simp
qed

theorem change_password_invalidates_session_witness:
  "\<exists>s'. change_password ps0 ''a2'' st_alice ''pw'' ''new'' =
           Inr (Body \<lparr>status = 200, message = ''Password Change Successful''\<rparr>, s')
        \<and> password (heap s' 0) = hash ps0 ''new''
        \<and> alternative_id (heap s' 0) = ''a2''
        \<and> load_user s' ''a1'' = None"
proof -
  have h1: "current_user st_alice = Some 0" by (simp add: st_alice_def)
  have h2: "alternative_id (heap st_alice 0) = ''a1''" by (simp add: st_alice_def user_alice_def)
  have h3: "verify ps0 ''pw'' (password (heap st_alice 0))"
    by (simp add: st_alice_def user_alice_def ps0_def)
  have h4: "''a2'' \<noteq> ''a1''" by simp
  have h5: "\<forall>r \<in> set (values_of st_alice). r \<noteq> 0 \<longrightarrow> alternative_id (heap st_alice r) \<noteq> ''a1''"
    by (simp add: st_alice_def values_of_def)
  from change_password_invalidates_session [OF h1 h2 h3 h4 h5] show ?thesis .
qed



text \<open>
  C5: in a state that satisfies the invariant of the store, a successful
  \<^verbatim>\<open>register_new_user\<close> appends exactly one entry to \<^verbatim>\<open>db["users"]\<close>, for a new object;
  its id is \<open>1\<close> in an empty store and the maximum of the existing ids (deleted records
  included) plus one otherwise, so it is greater than every existing id; its password is
  the hash of the supplied password, its alternative id the drawn \<open>uuid\<close>, its deleted
  flag false; the existing records and the current user are unchanged.
\<close>

theorem register_new_user_inserts:
  assumes "wf_state s"
    and "fst (register_new_user ps uuid s nm pw c) =
           Body \<lparr>status = 200, message = ''User '' @ nm @ '' registration successful''\<rparr>"
  shows "users (snd (register_new_user ps uuid s nm pw c)) =
           users s @ [(str_int (new_id s), lim s)]
         \<and> lim s \<notin> set (values_of s)
         \<and> heap (snd (register_new_user ps uuid s nm pw c)) (lim s) =
               \<lparr>id_user = new_id s, alternative_id = uuid, name = nm,
                password = hash ps pw, deleted = False\<rparr>
         \<and> (\<forall>r \<in> set (values_of s). heap (snd (register_new_user ps uuid s nm pw c)) r = heap s r)
         \<and> new_id s = (if users s = [] then 1
                         else Max ((\<lambda>r. id_user (heap s r)) ` set (values_of s)) + 1)
         \<and> (\<forall>r \<in> set (values_of s). id_user (heap s r) < new_id s)
         \<and> current_user (snd (register_new_user ps uuid s nm pw c)) = current_user s"
proof -
  let ?s1 = "snd (register_new_user ps uuid s nm pw c)"
  note a = registered_appended(1) [OF assms]
  note c = registered_appended(2) [OF assms]
  note h = registered_holder [OF assms(2) refl]
  have fresh: "lim s \<notin> set (values_of s)" using assms(1) by (rule wf_lim_fresh)
  have d: "new_id s = (if users s = [] then 1
                         else Max ((\<lambda>r. id_user (heap s r)) ` set (values_of s)) + 1)"
  proof (cases "users s = []")
    case True
    then show ?thesis by (simp add: new_id_empty)
  next
    case False
    have "\<forall>r \<in> set (values_of s). 0 \<le> id_user (heap s r)"
    proof
      fix r assume "r \<in> set (values_of s)"
      from wf_value(2) [OF assms(1) this] show "0 \<le> id_user (heap s r)" by simp
    qed
    from new_id_Max [OF False this] False show ?thesis by simp
  qed
  have e: "\<forall>r \<in> set (values_of s). id_user (heap s r) < new_id s"
    by (intro ballI new_id_greater)
  from a fresh h(2) c d e h(4) show ?thesis by blast
qed

theorem register_new_user_inserts_witness:
  "users (snd (register_new_user ps0 ''a2'' st_deleted ''alice'' ''pw'' ''pw'')) =
     [(''1'', 0), (''2'', 1)]
   \<and> heap (snd (register_new_user ps0 ''a2'' st_deleted ''alice'' ''pw'' ''pw'')) 1 = user_alice2
   \<and> heap (snd (register_new_user ps0 ''a2'' st_deleted ''alice'' ''pw'' ''pw'')) 0 =
         user_alice\<lparr>deleted := True\<rparr>
   \<and> new_id st_deleted = 2
   \<and> users (snd (register_new_user ps0 ''a1'' st_empty ''alice'' ''pw'' ''pw'')) = [(''1'', 0)]
   \<and> new_id st_empty = 1"
proof -
  have ok: "fst (register_new_user ps0 ''a2'' st_deleted ''alice'' ''pw'' ''pw'') =
              Body \<lparr>status = 200, message = ''User '' @ ''alice'' @ '' registration successful''\<rparr>"
    by (simp add: run_register_again)
  have ok0: "fst (register_new_user ps0 ''a1'' st_empty ''alice'' ''pw'' ''pw'') =
              Body \<lparr>status = 200, message = ''User '' @ ''alice'' @ '' registration successful''\<rparr>"
    by (simp add: run_register)
  have v: "values_of st_deleted = [0]" by (simp add: st_deleted_def values_of_def)
  have u: "users st_deleted = [(''1'', 0)]" "lim st_deleted = 1"
    "heap st_deleted 0 = user_alice\<lparr>deleted := True\<rparr>"
    by (simp_all add: st_deleted_def)
  have u0: "users st_empty = []" "lim st_empty = 0" by (simp_all add: st_empty_def)
  from register_new_user_inserts [OF wf_state_st_deleted ok]
  have 1: "users (snd (register_new_user ps0 ''a2'' st_deleted ''alice'' ''pw'' ''pw'')) =
         [(''1'', 0), (''2'', 1)]"
    and 2: "heap (snd (register_new_user ps0 ''a2'' st_deleted ''alice'' ''pw'' ''pw'')) 1 = user_alice2"
    and 3: "heap (snd (register_new_user ps0 ''a2'' st_deleted ''alice'' ''pw'' ''pw'')) 0 =
         user_alice\<lparr>deleted := True\<rparr>"
    and 4: "new_id st_deleted = 2"
    by (simp_all add: v u user_alice_def user_alice2_def ps0_def str_int_2)
  from register_new_user_inserts [OF wf_state_st_empty ok0]
  have 5: "users (snd (register_new_user ps0 ''a1'' st_empty ''alice'' ''pw'' ''pw'')) = [(''1'', 0)]"
    and 6: "new_id st_empty = 1"
    by (simp_all add: u0 str_int_1)
  from 1 2 3 4 5 6 show ?thesis by (intro conjI)
qed

text \<open>
  C6: when \<^verbatim>\<open>register_new_user(name, password, password)\<close> succeeds and the password
  service verifies the password against its own hash, \<^verbatim>\<open>authenticate_user(name, password)\<close>
  in the resulting state returns the object that the registration created, in every
  state of the store.
\<close>

theorem authenticate_after_register:
  assumes "fst (register_new_user ps uuid s nm pw pw) =
             Body \<lparr>status = 200, message = ''User '' @ nm @ '' registration successful''\<rparr>"
    and "verify ps pw (hash ps pw)"
  shows "authenticate_user ps (snd (register_new_user ps uuid s nm pw pw)) nm pw = Some (lim s)
         \<and> lim s \<in> set (values_of (snd (register_new_user ps uuid s nm pw pw)))
         \<and> heap (snd (register_new_user ps uuid s nm pw pw)) (lim s) =
               \<lparr>id_user = new_id s, alternative_id = uuid, name = nm,
                password = hash ps pw, deleted = False\<rparr>"
proof -
  let ?s1 = "snd (register_new_user ps uuid s nm pw pw)"
  note h = registered_holder [OF assms(1) refl]
  have "List.find (\<lambda>x. name (heap ?s1 x) = nm \<and> \<not> deleted (heap ?s1 x)) (values_of ?s1)
          = Some (lim s)"
    using h(1) _ h(3) by (rule find_unique) (simp add: h(2))
  then have "authenticate_user ps ?s1 nm pw = Some (lim s)"
    using assms(2) by (simp add: authenticate_user_find h(2))
  with h(1,2) show ?thesis by simp
qed

theorem authenticate_after_register_witness:
  "authenticate_user ps0 (snd (register_new_user ps0 ''a1'' st_empty ''alice'' ''pw'' ''pw''))
     ''alice'' ''pw'' = Some 0
   \<and> heap (snd (register_new_user ps0 ''a1'' st_empty ''alice'' ''pw'' ''pw'')) 0 = user_alice"
proof -
  have ok: "fst (register_new_user ps0 ''a1'' st_empty ''alice'' ''pw'' ''pw'') =
              Body \<lparr>status = 200, message = ''User '' @ ''alice'' @ '' registration successful''\<rparr>"
    by (simp add: run_register)
  have v: "verify ps0 ''pw'' (hash ps0 ''pw'')" by (simp add: ps0_def)
  have l: "lim st_empty = 0" by (simp add: st_empty_def)
  have n: "new_id st_empty = 1" by (simp add: new_id_empty st_empty_def)
  from authenticate_after_register [OF ok v] show ?thesis
    by (simp add: l n user_alice_def ps0_def)
qed

text \<open>
  C7 (amended): a successful \<^verbatim>\<open>delete_current_user\<close> leaves \<^verbatim>\<open>db["users"]\<close> as it was,
  sets the deleted flag of the current user's record and changes no other field of it and
  no other record. When the store satisfies its invariant and the current user was not
  deleted before the call, \<^verbatim>\<open>authenticate_user\<close> with that user's name returns \<^verbatim>\<open>None\<close>
  in the resulting state, whatever the password.
\<close>

theorem delete_current_user_soft:
  assumes "current_user s = Some cu" and "verify ps pw (password (heap s cu))"
  shows "\<exists>s'. delete_current_user ps s pw =
                 Inr (Body \<lparr>status = 200, message = ''Current user deleted successfully.''\<rparr>, s')
              \<and> users s' = users s \<and> lim s' = lim s \<and> current_user s' = current_user s
              \<and> heap s' cu = (heap s cu)\<lparr>deleted := True\<rparr>
              \<and> (\<forall>r. r \<noteq> cu \<longrightarrow> heap s' r = heap s r)
              \<and> (wf_state s \<longrightarrow> cu \<in> set (values_of s'))
              \<and> (wf_state s \<and> \<not> deleted (heap s cu) \<longrightarrow>
                    (\<forall>ps' pw'. authenticate_user ps' s' (name (heap s cu)) pw' = None))"
proof -
  let ?s' = "s\<lparr>heap := (heap s)(cu := (heap s cu)\<lparr>deleted := True\<rparr>)\<rparr>"
  have a: "delete_current_user ps s pw =
             Inr (Body \<lparr>status = 200, message = ''Current user deleted successfully.''\<rparr>, ?s')"
    using assms by (rule delete_current_user_ok)
  have b: "users ?s' = users s" "lim ?s' = lim s" "current_user ?s' = current_user s"
    "heap ?s' cu = (heap s cu)\<lparr>deleted := True\<rparr>"
    "\<forall>r. r \<noteq> cu \<longrightarrow> heap ?s' r = heap s r"
    by simp_all
  have c: "wf_state s \<longrightarrow> cu \<in> set (values_of ?s')"
  proof
    assume "wf_state s"
    from wf_current [OF this assms(1)] show "cu \<in> set (values_of ?s')" by (simp add: values_of_def)
  qed
  have d: "wf_state s \<and> \<not> deleted (heap s cu) \<longrightarrow>
             (\<forall>ps' pw'. authenticate_user ps' ?s' (name (heap s cu)) pw' = None)"
  proof (intro impI allI)
    fix ps' pw'
    assume h: "wf_state s \<and> \<not> deleted (heap s cu)"
    then have "wf_state s" and "\<not> deleted (heap s cu)" by blast+
    from deleted_no_holder [OF this(1) assms(1) this(2) refl]
    show "authenticate_user ps' ?s' (name (heap s cu)) pw' = None"
      by (rule authenticate_user_no_holder)
  qed
  from a b c d show ?thesis
    by (intro exI [of _ ?s'] conjI) assumption+
qed

theorem delete_current_user_soft_witness:
  "\<exists>s'. delete_current_user ps0 st_alice ''pw'' =
           Inr (Body \<lparr>status = 200, message = ''Current user deleted successfully.''\<rparr>, s')
        \<and> users s' = [(''1'', 0)]
        \<and> heap s' 0 = user_alice\<lparr>deleted := True\<rparr>
        \<and> authenticate_user ps0 s' ''alice'' ''pw'' = None"
proof -
  have cu: "current_user st_alice = Some 0" by (simp add: st_alice_def)
  have v: "verify ps0 ''pw'' (password (heap st_alice 0))"
    by (simp add: st_alice_def user_alice_def ps0_def)
  have nd: "wf_state st_alice \<and> \<not> deleted (heap st_alice 0)"
    by (simp add: wf_state_st_alice) (simp add: st_alice_def user_alice_def)
  have h: "users st_alice = [(''1'', 0)]" "heap st_alice 0 = user_alice"
    "name (heap st_alice 0) = ''alice''"
    by (simp_all add: st_alice_def user_alice_def)
  from delete_current_user_soft [OF cu v] obtain s'
    where 1: "delete_current_user ps0 st_alice ''pw'' =
           Inr (Body \<lparr>status = 200, message = ''Current user deleted successfully.''\<rparr>, s')"
      and 2: "users s' = users st_alice"
      and 3: "heap s' 0 = (heap st_alice 0)\<lparr>deleted := True\<rparr>"
      and 4: "wf_state st_alice \<and> \<not> deleted (heap st_alice 0) \<longrightarrow>
                (\<forall>ps' pw'. authenticate_user ps' s' (name (heap st_alice 0)) pw' = None)"
    by blast
  from 4 nd have "authenticate_user ps0 s' (name (heap st_alice 0)) ''pw'' = None" by blast
  then have 5: "authenticate_user ps0 s' ''alice'' ''pw'' = None" by (simp only: h(3))
  from 2 have 6: "users s' = [(''1'', 0)]" by (simp only: h)
  from 3 have 7: "heap s' 0 = user_alice\<lparr>deleted := True\<rparr>" by (simp only: h)
  from 1 6 7 5 show ?thesis by (intro exI [of _ s'] conjI)
qed

text \<open>
  C7, as stated, fails in a run from the empty store. The user \<open>alice\<close> is registered,
  logs in and deletes the account; the name is registered again with the same password;
  the deleted record is still the current user (\<^verbatim>\<open>load_user\<close> resolves a deleted
  record), and its \<^verbatim>\<open>delete_current_user\<close> succeeds once more. \<^verbatim>\<open>authenticate_user\<close> with
  the name and the original password of the deleted user then returns the second record,
  not \<^verbatim>\<open>None\<close>: neither after the first successful deletion nor right after the second
  one does every later authentication with these credentials fail.
\<close>

theorem delete_then_authenticate_counterexample:
  "register_new_user ps0 ''a1'' st_empty ''alice'' ''pw'' ''pw'' =
     (Body \<lparr>status = 200, message = ''User alice registration successful''\<rparr>, st_registered)
   \<and> login ps0 st_registered ''alice'' ''pw'' =
       (Body \<lparr>status = 200, message = ''login success''\<rparr>, st_alice)
   \<and> delete_current_user ps0 st_alice ''pw'' =
       Inr (Body \<lparr>status = 200, message = ''Current user deleted successfully.''\<rparr>, st_deleted)
   \<and> register_new_user ps0 ''a2'' st_deleted ''alice'' ''pw'' ''pw'' =
       (Body \<lparr>status = 200, message = ''User alice registration successful''\<rparr>, st_rereg)
   \<and> current_user st_rereg = Some 0 \<and> name (heap st_rereg 0) = ''alice''
   \<and> delete_current_user ps0 st_rereg ''pw'' =
       Inr (Body \<lparr>status = 200, message = ''Current user deleted successfully.''\<rparr>, st_rereg)
   \<and> authenticate_user ps0 st_rereg ''alice'' ''pw'' = Some 1"
proof -
  have "current_user st_rereg = Some 0" and "name (heap st_rereg 0) = ''alice''"
    by (simp_all add: st_rereg_def user_alice_def)
  with run_register run_login run_delete run_register_again run_delete_again run_authenticate
  show ?thesis by (intro conjI)
qed

text \<open>
  C10: \<^verbatim>\<open>load_user\<close> does not look at the deleted flag. A record of the store whose
  alternative id is the session id, and the only such record, is returned, deleted or
  not; if several records share the id, one of them is returned (the first in the order
  of the dictionary). In particular, after a successful \<^verbatim>\<open>delete_current_user\<close> the
  deleted record is still the one that \<^verbatim>\<open>load_user\<close> returns for its alternative id.
\<close>

theorem load_user_ignores_deleted:
  "(r \<in> set (values_of s) \<and> alternative_id (heap s r) = sid
      \<and> (\<forall>r' \<in> set (values_of s). alternative_id (heap s r') = sid \<longrightarrow> r' = r)
      \<longrightarrow> load_user s sid = Some r)
   \<and> (r \<in> set (values_of s) \<and> alternative_id (heap s r) = sid
      \<longrightarrow> (\<exists>r'. load_user s sid = Some r' \<and> r' \<in> set (values_of s)
                  \<and> alternative_id (heap s r') = sid))
   \<and> (current_user s = Some r \<and> verify ps pw (password (heap s r))
      \<and> r \<in> set (values_of s) \<and> alternative_id (heap s r) = sid
      \<and> (\<forall>r' \<in> set (values_of s). alternative_id (heap s r') = sid \<longrightarrow> r' = r)
      \<longrightarrow> (\<exists>s'. delete_current_user ps s pw =
                   Inr (Body \<lparr>status = 200, message = ''Current user deleted successfully.''\<rparr>, s')
                \<and> deleted (heap s' r) \<and> load_user s' sid = Some r))"
proof (intro conjI impI)
  assume "r \<in> set (values_of s) \<and> alternative_id (heap s r) = sid
      \<and> (\<forall>r' \<in> set (values_of s). alternative_id (heap s r') = sid \<longrightarrow> r' = r)"
  then have "r \<in> set (values_of s)" and "alternative_id (heap s r) = sid"
    and "\<forall>r' \<in> set (values_of s). alternative_id (heap s r') = sid \<longrightarrow> r' = r"
    by (rule conjunct1, rule conjunct2 [THEN conjunct1], rule conjunct2 [THEN conjunct2])
  then show "load_user s sid = Some r" by (rule load_user_unique)
next
  assume "r \<in> set (values_of s) \<and> alternative_id (heap s r) = sid"
  then have "r \<in> set (values_of s)" and "alternative_id (heap s r) = sid" by (rule conjunct1, rule conjunct2)
  then show "\<exists>r'. load_user s sid = Some r' \<and> r' \<in> set (values_of s)
                  \<and> alternative_id (heap s r') = sid"
    by (rule load_user_some)
next
  assume h: "current_user s = Some r \<and> verify ps pw (password (heap s r))
      \<and> r \<in> set (values_of s) \<and> alternative_id (heap s r) = sid
      \<and> (\<forall>r' \<in> set (values_of s). alternative_id (heap s r') = sid \<longrightarrow> r' = r)"
  from h have 1: "current_user s = Some r" by (rule conjunct1)
  from h have 2: "verify ps pw (password (heap s r))" by (rule conjunct2 [THEN conjunct1])
  from h have 3: "r \<in> set (values_of s)" by (rule conjunct2 [THEN conjunct2, THEN conjunct1])
  from h have 4: "alternative_id (heap s r) = sid"
    by (rule conjunct2 [THEN conjunct2, THEN conjunct2, THEN conjunct1])
  from h have 5: "\<forall>r' \<in> set (values_of s). alternative_id (heap s r') = sid \<longrightarrow> r' = r"
    by (rule conjunct2 [THEN conjunct2, THEN conjunct2, THEN conjunct2])
  from 1 2 3 4 5 show "\<exists>s'. delete_current_user ps s pw =
                   Inr (Body \<lparr>status = 200, message = ''Current user deleted successfully.''\<rparr>, s')
                \<and> deleted (heap s' r) \<and> load_user s' sid = Some r"
    by (rule load_user_after_delete)
qed

theorem load_user_ignores_deleted_witness:
  "load_user st_rereg ''a1'' = Some 0 \<and> deleted (heap st_rereg 0)
   \<and> (\<exists>r'. load_user st_rereg ''a2'' = Some r' \<and> alternative_id (heap st_rereg r') = ''a2'')
   \<and> (\<exists>s'. delete_current_user ps0 st_alice ''pw'' =
           Inr (Body \<lparr>status = 200, message = ''Current user deleted successfully.''\<rparr>, s')
         \<and> deleted (heap s' 0) \<and> load_user s' ''a1'' = Some 0)"
proof -
  have a: "0 \<in> set (values_of st_rereg) \<and> alternative_id (heap st_rereg 0) = ''a1''
      \<and> (\<forall>r' \<in> set (values_of st_rereg). alternative_id (heap st_rereg r') = ''a1'' \<longrightarrow> r' = 0)"
    by (simp add: st_rereg_def values_of_def user_alice_def user_alice2_def)
  have b: "1 \<in> set (values_of st_rereg) \<and> alternative_id (heap st_rereg 1) = ''a2''"
    by (simp add: st_rereg_def values_of_def user_alice2_def)
  have c: "current_user st_alice = Some 0 \<and> verify ps0 ''pw'' (password (heap st_alice 0))
      \<and> 0 \<in> set (values_of st_alice) \<and> alternative_id (heap st_alice 0) = ''a1''
      \<and> (\<forall>r' \<in> set (values_of st_alice). alternative_id (heap st_alice r') = ''a1'' \<longrightarrow> r' = 0)"
    by (simp add: st_alice_def values_of_def user_alice_def ps0_def)
  have d: "deleted (heap st_rereg 0)" by (simp add: st_rereg_def)
  from load_user_ignores_deleted [where s = st_rereg and r = 0 and sid = "''a1''",
      THEN conjunct1, rule_format, OF a]
  have 1: "load_user st_rereg ''a1'' = Some 0" .
  from load_user_ignores_deleted [where s = st_rereg and r = 1 and sid = "''a2''",
      THEN conjunct2, THEN conjunct1, rule_format, OF b]
  have 2: "\<exists>r'. load_user st_rereg ''a2'' = Some r' \<and> alternative_id (heap st_rereg r') = ''a2''"
    by blast
  from load_user_ignores_deleted [where s = st_alice and r = 0 and sid = "''a1''" and ps = ps0
      and pw = "''pw''", THEN conjunct2, THEN conjunct2, rule_format, OF c]
  have 3: "\<exists>s'. delete_current_user ps0 st_alice ''pw'' =
           Inr (Body \<lparr>status = 200, message = ''Current user deleted successfully.''\<rparr>, s')
         \<and> deleted (heap s' 0) \<and> load_user s' ''a1'' = Some 0" .
  from 1 d 2 3 show ?thesis by (intro conjI)
qed

end
